theory Spec2Isabelle
  imports Complex_Main "HOL-Library.Word"
begin

section \<open>JavaScript strings\<close>

text \<open>
  A JavaScript string is a sequence of 16-bit code units. The functions verified here
  (\<^verbatim>\<open>trim\<close>, \<^verbatim>\<open>split\<close>, \<^verbatim>\<open>includes\<close>, indexing,
  regular expressions without the \<^verbatim>\<open>u\<close> flag) all work on code units, so a string is
  modelled as a list of 16-bit words. \<open>str\<close> turns an ASCII literal into such a list,
  \<open>chr\<close> a single ASCII character into its code unit.
\<close>

type_synonym codeunit = "16 word"
type_synonym jsstring = "codeunit list"

definition chr :: "char \<Rightarrow> codeunit" where
  "chr c = of_char c"

definition str :: "string \<Rightarrow> jsstring" where
  "str s = map chr s"

text \<open>
  The characters removed by \<^verbatim>\<open>String.prototype.trim\<close> and matched by the regular
  expression class \<^verbatim>\<open>\s\<close> are the same: ECMAScript's WhiteSpace and LineTerminator
  code points (TAB, LF, VT, FF, CR, SPACE, NBSP, U+1680, U+2000 to U+200A, U+2028, U+2029,
  U+202F, U+205F, U+3000, U+FEFF).
\<close>

definition isWhiteSpace :: "codeunit \<Rightarrow> bool" where
  "isWhiteSpace c \<longleftrightarrow>
     c \<in> {0x09, 0x0A, 0x0B, 0x0C, 0x0D, 0x20, 0xA0, 0x1680, 0x2028, 0x2029,
           0x202F, 0x205F, 0x3000, 0xFEFF}
     \<or> (0x2000 \<le> c \<and> c \<le> 0x200A)"

definition trim :: "jsstring \<Rightarrow> jsstring" where
  "trim s = rev (dropWhile isWhiteSpace (rev (dropWhile isWhiteSpace s)))"

text \<open>
  \<^verbatim>\<open>s.split(/\s+/)\<close>: the string is cut at every maximal run of white space. A run at
  the very start or end leaves an empty string in the result, and the result is never the
  empty array (the empty string gives one empty part).
\<close>

function splitWhiteSpace :: "jsstring \<Rightarrow> jsstring list" where
  "splitWhiteSpace s =
     (case dropWhile (\<lambda>c. \<not> isWhiteSpace c) s of
        [] \<Rightarrow> [s]
      | _ # rest \<Rightarrow> takeWhile (\<lambda>c. \<not> isWhiteSpace c) s
                   # splitWhiteSpace (dropWhile isWhiteSpace rest))"
  by pat_completeness auto
termination
proof (relation "measure length")
  show "wf (measure length)" by simp
next
  fix s :: jsstring and x rest
  assume "dropWhile (\<lambda>c. \<not> isWhiteSpace c) s = x # rest"
  then have "Suc (length rest) \<le> length s"
    using length_dropWhile_le [of "\<lambda>c. \<not> isWhiteSpace c" s] by simp
  moreover have "length (dropWhile isWhiteSpace rest) \<le> length rest"
    by (rule length_dropWhile_le)
  ultimately show "(dropWhile isWhiteSpace rest, s) \<in> measure length" by simp
qed

declare splitWhiteSpace.simps [simp del]

text \<open>\<^verbatim>\<open>parts.join(sep)\<close>.\<close>

fun joinWith :: "jsstring \<Rightarrow> jsstring list \<Rightarrow> jsstring" where
  "joinWith sep [] = []"
| "joinWith sep [p] = p"
| "joinWith sep (p # q # ps) = p @ sep @ joinWith sep (q # ps)"

section \<open>Regular expressions\<close>

text \<open>
  The patterns of the source use character classes, sequencing, an optional group and the
  star. \<open>regex\<close> is their abstract syntax (with the two constants and the alternation
  that derivatives need), \<open>lang\<close> the set of strings a pattern describes.
  \<open>matches\<close> decides membership by derivatives; it is what \<^verbatim>\<open>/^r$/.test(s)\<close>
  computes, and \<open>regexSearch\<close> what \<^verbatim>\<open>/r/.test(s)\<close> computes for a pattern
  without anchors: some substring of \<open>s\<close> matches.
\<close>

datatype class_item = Single codeunit | Range codeunit codeunit

datatype regex =
    Never
  | Empty
  | Class "class_item list"
  | Then regex regex
  | Either regex regex
  | Maybe regex
  | Many regex

fun inItem :: "codeunit \<Rightarrow> class_item \<Rightarrow> bool" where
  "inItem c (Single d) = (c = d)"
| "inItem c (Range lo hi) = (lo \<le> c \<and> c \<le> hi)"

definition inClass :: "class_item list \<Rightarrow> codeunit \<Rightarrow> bool" where
  "inClass items c = list_ex (inItem c) items"

inductive_set repeated :: "jsstring set \<Rightarrow> jsstring set" for L :: "jsstring set" where
  none: "[] \<in> repeated L"
| more: "u \<in> L \<Longrightarrow> v \<in> repeated L \<Longrightarrow> u @ v \<in> repeated L"

fun lang :: "regex \<Rightarrow> jsstring set" where
  "lang Never = {}"
| "lang Empty = {[]}"
| "lang (Class items) = {[c] | c. inClass items c}"
| "lang (Then r s) = {u @ v | u v. u \<in> lang r \<and> v \<in> lang s}"
| "lang (Either r s) = lang r \<union> lang s"
| "lang (Maybe r) = insert [] (lang r)"
| "lang (Many r) = repeated (lang r)"

fun nullable :: "regex \<Rightarrow> bool" where
  "nullable Never = False"
| "nullable Empty = True"
| "nullable (Class items) = False"
| "nullable (Then r s) = (nullable r \<and> nullable s)"
| "nullable (Either r s) = (nullable r \<or> nullable s)"
| "nullable (Maybe r) = True"
| "nullable (Many r) = True"

fun after :: "codeunit \<Rightarrow> regex \<Rightarrow> regex" where
  "after c Never = Never"
| "after c Empty = Never"
| "after c (Class items) = (if inClass items c then Empty else Never)"
| "after c (Then r s) =
     (if nullable r then Either (Then (after c r) s) (after c s) else Then (after c r) s)"
| "after c (Either r s) = Either (after c r) (after c s)"
| "after c (Maybe r) = after c r"
| "after c (Many r) = Then (after c r) (Many r)"

fun matches :: "regex \<Rightarrow> jsstring \<Rightarrow> bool" where
  "matches r [] = nullable r"
| "matches r (c # cs) = matches (after c r) cs"

definition regexSearch :: "regex \<Rightarrow> jsstring \<Rightarrow> bool" where
  "regexSearch r s =
     list_ex (\<lambda>i. list_ex (\<lambda>n. matches r (take n (drop i s))) [0..<Suc (length s - i)])
       [0..<Suc (length s)]"

abbreviation Lit :: "char \<Rightarrow> regex" where
  "Lit c \<equiv> Class [Single (chr c)]"

section \<open>CommandValidator (commandValidator.ts)\<close>

text \<open>
  The result of \<^verbatim>\<open>validateCommand\<close>: the interface has two optional fields, absent
  fields are \<open>None\<close>. The three error messages of the source are the constructors of
  \<open>command_error\<close>: "the command must not be empty", "the command is not in the allowed
  list: <base command>" and "the command contains unsafe characters".
\<close>

datatype command_error =
    CommandEmpty
  | CommandNotAllowed jsstring
  | CommandUnsafe

record CommandValidationResult =
  valid :: bool
  sanitizedCommand :: "jsstring option"
  error :: "command_error option"

definition rejectCommand :: "command_error \<Rightarrow> CommandValidationResult" where
  "rejectCommand e = \<lparr>valid = False, sanitizedCommand = None, error = Some e\<rparr>"

definition acceptCommand :: "jsstring \<Rightarrow> CommandValidationResult" where
  "acceptCommand c = \<lparr>valid = True, sanitizedCommand = Some c, error = None\<rparr>"

definition ALLOWED_COMMANDS :: "jsstring list" where
  "ALLOWED_COMMANDS =
     [str ''npm'', str ''npx'', str ''pip'', str ''pip3'', str ''composer'', str ''cargo'',
      str ''gem'', str ''node'', str ''python'', str ''python3'']"

text \<open>
  \<^verbatim>\<open>DANGEROUS_PATTERNS\<close> is one character class without anchors. The code units
  written in hexadecimal are the backtick (60), the backslash (5C), the single quote (27)
  and the double quote (22).
\<close>

definition backslash :: codeunit where
  "backslash = 0x5C"

definition DANGEROUS_PATTERNS :: regex where
  "DANGEROUS_PATTERNS =
     Class [Single (chr CHR '';''), Single (chr CHR ''&''), Single (chr CHR ''|''),
            Single 0x60, Single (chr CHR ''$''), Single (chr CHR ''(''),
            Single (chr CHR '')''), Single (chr CHR ''{''), Single (chr CHR ''}''),
            Single (chr CHR ''[''), Single (chr CHR '']''), Single (chr CHR ''<''),
            Single (chr CHR ''>''), Single 0x5C, Single 0x27, Single 0x22]"

text \<open>
  \<^verbatim>\<open>containsDangerousChars\<close>: the empty string is falsy and gives \<open>False\<close>; otherwise
  the result is \<^verbatim>\<open>DANGEROUS_PATTERNS.test(input)\<close>.
\<close>

definition containsDangerousChars :: "jsstring \<Rightarrow> bool" where
  "containsDangerousChars input =
     (if input = [] then False else regexSearch DANGEROUS_PATTERNS input)"

text \<open>
  The local array \<^verbatim>\<open>dangerousChars\<close> of \<^verbatim>\<open>escapeArgument\<close>: the same characters
  without the backslash.
\<close>

definition dangerousChars :: "codeunit list" where
  "dangerousChars =
     [chr CHR '';'', chr CHR ''&'', chr CHR ''|'', 0x60, chr CHR ''$'', chr CHR ''('',
      chr CHR '')'', chr CHR ''{'', chr CHR ''}'', chr CHR ''['', chr CHR '']'',
      chr CHR ''<'', chr CHR ''>'', 0x27, 0x22]"

text \<open>
  The \<^verbatim>\<open>while (i < arg.length)\<close> loop of \<^verbatim>\<open>escapeArgument\<close>, with its index
  \<open>i\<close> and its accumulator \<open>result\<close>.
\<close>

function escapeWhile :: "jsstring \<Rightarrow> nat \<Rightarrow> jsstring \<Rightarrow> jsstring" where
  "escapeWhile arg i result =
     (if i < length arg then
        (if arg ! i = backslash then
           (if i + 1 < length arg \<and> arg ! (i + 1) \<in> set dangerousChars then
              escapeWhile arg (i + 2) (result @ [arg ! i, arg ! (i + 1)])
            else if i + 1 < length arg \<and> arg ! (i + 1) = backslash then
              escapeWhile arg (i + 2) (result @ [backslash, backslash])
            else escapeWhile arg (i + 1) (result @ [backslash, backslash]))
         else if arg ! i \<in> set dangerousChars then
           escapeWhile arg (i + 1) (result @ [backslash, arg ! i])
         else escapeWhile arg (i + 1) (result @ [arg ! i]))
      else result)"
  by pat_completeness auto
termination
  by (relation "measure (\<lambda>(arg, i, result). length arg - i)") auto

declare escapeWhile.simps [simp del]

definition escapeArgument :: "jsstring \<Rightarrow> jsstring" where
  "escapeArgument arg = (if arg = [] then [] else escapeWhile arg 0 [])"

text \<open>
  \<^verbatim>\<open>validateCommand\<close>. The two parts of the split are \<^verbatim>\<open>parts[0]\<close> and
  \<^verbatim>\<open>parts.slice(1)\<close>. \<^verbatim>\<open>parts[0]\<close> of an empty array would be
  \<^verbatim>\<open>undefined\<close>, which is not in the allow-list and prints as "undefined"; the split
  never returns an empty array (lemma \<open>splitWhiteSpace_not_Nil\<close>).
\<close>

definition validateCommand :: "jsstring \<Rightarrow> CommandValidationResult" where
  "validateCommand command =
     (if command = [] then rejectCommand CommandEmpty
      else
        let trimmedCommand = trim command in
        if length trimmedCommand = 0 then rejectCommand CommandEmpty
        else
          (case splitWhiteSpace trimmedCommand of
             [] \<Rightarrow> rejectCommand (CommandNotAllowed (str ''undefined''))
           | baseCommand # args \<Rightarrow>
               if baseCommand \<notin> set ALLOWED_COMMANDS
               then rejectCommand (CommandNotAllowed baseCommand)
               else if containsDangerousChars trimmedCommand
               then rejectCommand CommandUnsafe
               else acceptCommand
                      (joinWith (str '' '') (baseCommand # map escapeArgument args))))"

section \<open>InputValidator (inputValidator.ts)\<close>

text \<open>
  \<^verbatim>\<open>ValidationResult<T>\<close>, with one constructor of \<open>validation_error\<close> for each
  error message of the validators: the package name is empty, the package name has an
  invalid format, the PID is not of type number, is NaN, is not finite, is not an integer,
  is not a positive integer, the path is empty, the path contains a traversal.
\<close>

datatype validation_error =
    PackageNameEmpty
  | PackageNameInvalid
  | PidNotNumber
  | PidNaN
  | PidNotFinite
  | PidNotInteger
  | PidNotPositive
  | PathEmpty
  | PathTraversal

record 'a ValidationResult =
  valid :: bool
  "value" :: "'a option"
  error :: "validation_error option"

definition reject :: "validation_error \<Rightarrow> 'a ValidationResult" where
  "reject e = \<lparr>valid = False, value = None, error = Some e\<rparr>"

definition accept :: "'a \<Rightarrow> 'a ValidationResult" where
  "accept v = \<lparr>valid = True, value = Some v, error = None\<rparr>"

text \<open>
  \<^verbatim>\<open>NPM_PACKAGE_PATTERN\<close> and \<^verbatim>\<open>PIP_PACKAGE_PATTERN\<close>, both between
  \<^verbatim>\<open>^\<close> and \<^verbatim>\<open>$\<close>. In the classes \<^verbatim>\<open>[a-z0-9-~]\<close> and
  \<^verbatim>\<open>[a-z0-9-._~]\<close> the hyphen after the range \<^verbatim>\<open>0-9\<close> is a literal hyphen.
\<close>

definition npmFirst :: "class_item list" where
  "npmFirst =
     [Range (chr CHR ''a'') (chr CHR ''z''), Range (chr CHR ''0'') (chr CHR ''9''),
      Single (chr CHR ''-''), Single (chr CHR ''~'')]"

definition npmRest :: "class_item list" where
  "npmRest =
     [Range (chr CHR ''a'') (chr CHR ''z''), Range (chr CHR ''0'') (chr CHR ''9''),
      Single (chr CHR ''-''), Single (chr CHR ''.''), Single (chr CHR ''_''),
      Single (chr CHR ''~'')]"

definition NPM_PACKAGE_PATTERN :: regex where
  "NPM_PACKAGE_PATTERN =
     Then (Maybe (Then (Lit CHR ''@'')
                 (Then (Class npmFirst) (Then (Many (Class npmRest)) (Lit CHR ''/'')))))
          (Then (Class npmFirst) (Many (Class npmRest)))"

definition pipEdge :: "class_item list" where
  "pipEdge =
     [Range (chr CHR ''a'') (chr CHR ''z''), Range (chr CHR ''A'') (chr CHR ''Z''),
      Range (chr CHR ''0'') (chr CHR ''9'')]"

definition pipInner :: "class_item list" where
  "pipInner =
     [Range (chr CHR ''a'') (chr CHR ''z''), Range (chr CHR ''A'') (chr CHR ''Z''),
      Range (chr CHR ''0'') (chr CHR ''9''), Single (chr CHR ''.''),
      Single (chr CHR ''_''), Single (chr CHR ''-'')]"

definition PIP_PACKAGE_PATTERN :: regex where
  "PIP_PACKAGE_PATTERN =
     Then (Class pipEdge) (Maybe (Then (Many (Class pipInner)) (Class pipEdge)))"

text \<open>\<^verbatim>\<open>PATH_TRAVERSAL_PATTERN\<close>: two dots, no anchors.\<close>

definition PATH_TRAVERSAL_PATTERN :: regex where
  "PATH_TRAVERSAL_PATTERN = Then (Lit CHR ''.'') (Lit CHR ''.'')"

text \<open>
  \<^verbatim>\<open>validatePackageName\<close>. The parameter has type string, so the
  \<^verbatim>\<open>typeof name !== 'string'\<close> test is always false.
\<close>

definition validatePackageName :: "jsstring \<Rightarrow> jsstring ValidationResult" where
  "validatePackageName name =
     (if trim name = [] then reject PackageNameEmpty
      else
        let trimmedName = trim name in
        if matches NPM_PACKAGE_PATTERN trimmedName then accept trimmedName
        else if matches PIP_PACKAGE_PATTERN trimmedName then accept trimmedName
        else reject PackageNameInvalid)"

text \<open>
  \<^verbatim>\<open>validatePID\<close> takes a value of type \<^verbatim>\<open>unknown\<close>. A number is NaN, one of the
  two infinities, or finite; a finite double is a rational number, and the tests of the
  function (\<^verbatim>\<open>Number.isInteger\<close>, \<^verbatim>\<open>pid <= 0\<close>) are exact on it, so a finite
  number carries its rational value.
\<close>

datatype jsnumber = NaN | PosInfinity | NegInfinity | Finite rat

datatype jsvalue =
    JSUndefined
  | JSNull
  | JSBoolean bool
  | JSNumber jsnumber
  | JSBigInt int
  | JSString jsstring
  | JSArray "jsvalue list"
  | JSObject "(jsstring \<times> jsvalue) list"

definition isNaN :: "jsnumber \<Rightarrow> bool" where
  "isNaN n = (n = NaN)"

definition isFinite :: "jsnumber \<Rightarrow> bool" where
  "isFinite n = (case n of Finite q \<Rightarrow> True | _ \<Rightarrow> False)"

definition isInteger :: "jsnumber \<Rightarrow> bool" where
  "isInteger n = (case n of Finite q \<Rightarrow> of_int \<lfloor>q\<rfloor> = q | _ \<Rightarrow> False)"

text \<open>\<^verbatim>\<open>n <= 0\<close>: false for NaN.\<close>

definition lessEqualZero :: "jsnumber \<Rightarrow> bool" where
  "lessEqualZero n =
     (case n of Finite q \<Rightarrow> q \<le> 0 | NegInfinity \<Rightarrow> True | PosInfinity \<Rightarrow> False
      | NaN \<Rightarrow> False)"

definition validatePID :: "jsvalue \<Rightarrow> jsnumber ValidationResult" where
  "validatePID pid =
     (case pid of
        JSNumber n \<Rightarrow>
          if isNaN n then reject PidNaN
          else if \<not> isFinite n then reject PidNotFinite
          else if \<not> isInteger n then reject PidNotInteger
          else if lessEqualZero n then reject PidNotPositive
          else accept n
      | _ \<Rightarrow> reject PidNotNumber)"

definition validatePath :: "jsstring \<Rightarrow> jsstring ValidationResult" where
  "validatePath path =
     (if trim path = [] then reject PathEmpty
      else
        let trimmedPath = trim path in
        if regexSearch PATH_TRAVERSAL_PATTERN trimmedPath then reject PathTraversal
        else accept trimmedPath)"

section \<open>CSP manager (cspManager.ts)\<close>










section \<open>Notions used to state the properties\<close>

text \<open>
  The specification's set of dangerous characters: semicolon, ampersand, bar, dollar, the
  six brackets, the two angle brackets, and the backtick (60), backslash (5C), single
  quote (27) and double quote (22).
\<close>

definition DangerousCharacterSet :: "codeunit set" where
  "DangerousCharacterSet = set (str '';&|$(){}[]<>'') \<union> {0x60, 0x5C, 0x27, 0x22}"

text \<open>
  The first white-space-separated token of a command line: the base command that
  \<^verbatim>\<open>validateCommand\<close> looks up.
\<close>

definition firstToken :: "jsstring \<Rightarrow> jsstring" where
  "firstToken command = (case splitWhiteSpace (trim command) of [] \<Rightarrow> [] | t # _ \<Rightarrow> t)"

text \<open>
  What the loop of \<^verbatim>\<open>escapeArgument\<close> appends to \<open>result\<close> from position \<open>i\<close>
  on depends only on the characters from \<open>i\<close> on. \<open>escapeFrom\<close> is that function of
  the suffix; \<open>escapeWhile_escapeFrom\<close> proves that the loop computes it.
\<close>

fun escapeFrom :: "jsstring \<Rightarrow> jsstring" where
  "escapeFrom [] = []"
| "escapeFrom (c # rest) =
     (if c = backslash then
        (case rest of
           n # rest' \<Rightarrow>
             if n \<in> set dangerousChars then c # n # escapeFrom rest'
             else if n = backslash then backslash # backslash # escapeFrom rest'
             else backslash # backslash # escapeFrom rest
         | [] \<Rightarrow> backslash # backslash # escapeFrom rest)
      else if c \<in> set dangerousChars then backslash # c # escapeFrom rest
      else c # escapeFrom rest)"

text \<open>
  Stripping the escape sequences once: reading from the left, a backslash is removed
  together with the character it escapes. A backslash at the very end escapes nothing and
  stays.
\<close>

fun stripEscapes :: "jsstring \<Rightarrow> jsstring" where
  "stripEscapes [] = []"
| "stripEscapes [c] = [c]"
| "stripEscapes (c # n # rest) =
     (if c = backslash then stripEscapes rest else c # stripEscapes (n # rest))"

text \<open>Collapsing every maximal run of white space to one space (code unit 20).\<close>

function collapseWhiteSpace :: "jsstring \<Rightarrow> jsstring" where
  "collapseWhiteSpace [] = []"
| "collapseWhiteSpace (c # cs) =
     (if isWhiteSpace c then 0x20 # collapseWhiteSpace (dropWhile isWhiteSpace cs)
      else c # collapseWhiteSpace cs)"
  by pat_completeness auto
termination
  by (relation "measure length") (auto simp: length_dropWhile_le less_Suc_eq_le)


section \<open>White space, trimming and splitting\<close>

lemma set_dropWhile_keeps: "x \<in> set xs \<Longrightarrow> \<not> P x \<Longrightarrow> x \<in> set (dropWhile P xs)"
  by (induction xs) auto

lemma last_dropWhile_keep: "dropWhile P xs \<noteq> [] \<Longrightarrow> last (dropWhile P xs) = last xs"
  by (induction xs) (auto split: if_splits)

lemma dropWhile_inside:
  "\<not> P y \<Longrightarrow> \<exists>pre'. dropWhile P (pre @ y # ys) = pre' @ y # ys"
  by (induction pre) auto

lemma set_trim_subset: "set (trim s) \<subseteq> set s"
proof
  fix x
  assume "x \<in> set (trim s)"
  then have "x \<in> set (dropWhile isWhiteSpace (rev (dropWhile isWhiteSpace s)))"
    by (simp add: trim_def)
  then have "x \<in> set (rev (dropWhile isWhiteSpace s))" by (rule set_dropWhileD)
  then have "x \<in> set (dropWhile isWhiteSpace s)" by simp
  then show "x \<in> set s" by (rule set_dropWhileD)
qed

lemma set_trim_keeps: "x \<in> set s \<Longrightarrow> \<not> isWhiteSpace x \<Longrightarrow> x \<in> set (trim s)"
  by (simp add: trim_def set_dropWhile_keeps)

lemma trim_Nil: "trim [] = []"
  by (simp add: trim_def)

lemma trim_eq_Nil_iff: "trim s = [] \<longleftrightarrow> (\<forall>c \<in> set s. isWhiteSpace c)"
proof
  assume empty: "trim s = []"
  show "\<forall>c \<in> set s. isWhiteSpace c"
  proof
    fix c
    assume "c \<in> set s"
    then show "isWhiteSpace c" using set_trim_keeps [of c s] empty by auto
  qed
next
  assume "\<forall>c \<in> set s. isWhiteSpace c"
  then have "dropWhile isWhiteSpace s = []" by simp
  then show "trim s = []" unfolding trim_def by (simp only: rev.simps dropWhile.simps)
qed

lemma trim_inside:
  assumes "\<not> isWhiteSpace a" and "\<not> isWhiteSpace b"
  shows "\<exists>pre' post'. trim (pre @ a # b # post) = pre' @ a # b # post'"
proof -
  from assms(1) obtain p where p: "dropWhile isWhiteSpace (pre @ a # b # post) = p @ a # b # post"
    using dropWhile_inside [of isWhiteSpace a pre "b # post"] by blast
  have "rev (p @ a # b # post) = rev post @ b # a # rev p" by simp
  moreover from assms(2) obtain q where
    "dropWhile isWhiteSpace (rev post @ b # a # rev p) = q @ b # a # rev p"
    using dropWhile_inside [of isWhiteSpace b "rev post" "a # rev p"] by blast
  ultimately have "trim (pre @ a # b # post) = rev (q @ b # a # rev p)"
    using p by (simp add: trim_def)
  then have "trim (pre @ a # b # post) = p @ a # b # rev q" by simp
  then show ?thesis by blast
qed

lemma trim_hd_not_white:
  assumes ne: "trim s \<noteq> []"
  shows "\<not> isWhiteSpace (hd (trim s))"
proof -
  let ?t = "dropWhile isWhiteSpace s"
  let ?r = "dropWhile isWhiteSpace (rev ?t)"
  have r: "?r \<noteq> []" using ne by (simp add: trim_def)
  have t: "?t \<noteq> []"
  proof
    assume "?t = []"
    then have "trim s = []" unfolding trim_def by (simp only: rev.simps dropWhile.simps)
    with ne show False by simp
  qed
  have "rev ?t = takeWhile isWhiteSpace (rev ?t) @ ?r" by simp
  then have "?t = rev ?r @ rev (takeWhile isWhiteSpace (rev ?t))"
    by (metis rev_append rev_rev_ident)
  then have "hd ?t = hd (rev ?r)" using r by (metis hd_append2 rev_is_Nil_conv)
  moreover have "\<not> isWhiteSpace (hd ?t)" using t by (rule hd_dropWhile)
  ultimately show ?thesis by (simp add: trim_def)
qed

lemma trim_last_not_white:
  assumes ne: "trim s \<noteq> []"
  shows "\<not> isWhiteSpace (last (trim s))"
proof -
  let ?r = "dropWhile isWhiteSpace (rev (dropWhile isWhiteSpace s))"
  from ne have r: "?r \<noteq> []" by (simp add: trim_def)
  then have "\<not> isWhiteSpace (hd ?r)" by (rule hd_dropWhile)
  moreover have "last (trim s) = hd ?r" using r by (simp add: trim_def last_rev)
  ultimately show ?thesis by simp
qed

lemma splitWhiteSpace_not_Nil: "splitWhiteSpace s \<noteq> []"
  by (subst splitWhiteSpace.simps) (simp split: list.splits)

lemma splitWhiteSpace_whole:
  "dropWhile (\<lambda>c. \<not> isWhiteSpace c) s = [] \<Longrightarrow> splitWhiteSpace s = [s]"
  by (subst splitWhiteSpace.simps) (simp only: list.case)

lemma splitWhiteSpace_cut:
  "dropWhile (\<lambda>c. \<not> isWhiteSpace c) s = x # rest \<Longrightarrow>
   splitWhiteSpace s =
     takeWhile (\<lambda>c. \<not> isWhiteSpace c) s # splitWhiteSpace (dropWhile isWhiteSpace rest)"
  by (subst splitWhiteSpace.simps) simp

lemma splitWhiteSpace_token:
  "t \<in> set (splitWhiteSpace s) \<Longrightarrow> c \<in> set t \<Longrightarrow> c \<in> set s \<and> \<not> isWhiteSpace c"
proof (induction s arbitrary: t rule: splitWhiteSpace.induct)
  case (1 s)
  show ?case
  proof (cases "dropWhile (\<lambda>c. \<not> isWhiteSpace c) s")
    case Nil
    then have all: "\<forall>c \<in> set s. \<not> isWhiteSpace c" by (simp add: dropWhile_eq_Nil_conv)
    from Nil have "splitWhiteSpace s = [s]" by (rule splitWhiteSpace_whole)
    with 1 all show ?thesis by simp
  next
    case (Cons x rest)
    then have split: "splitWhiteSpace s =
        takeWhile (\<lambda>c. \<not> isWhiteSpace c) s # splitWhiteSpace (dropWhile isWhiteSpace rest)"
      by (rule splitWhiteSpace_cut)
    from "1.prems" split consider
        (first) "t = takeWhile (\<lambda>c. \<not> isWhiteSpace c) s"
      | (later) "t \<in> set (splitWhiteSpace (dropWhile isWhiteSpace rest))"
      by auto
    then show ?thesis
    proof cases
      case first
      with "1.prems" show ?thesis by (auto dest: set_takeWhileD)
    next
      case later
      from "1.IH" [OF Cons later "1.prems"(2)]
      have c: "c \<in> set (dropWhile isWhiteSpace rest)" and nw: "\<not> isWhiteSpace c" by simp_all
      from c have "c \<in> set rest" by (rule set_dropWhileD)
      then have "c \<in> set (dropWhile (\<lambda>c. \<not> isWhiteSpace c) s)" using Cons by simp
      then have "c \<in> set s" by (rule set_dropWhileD)
      with nw show ?thesis by simp
    qed
  qed
qed

lemma splitWhiteSpace_no_empty:
  "s \<noteq> [] \<Longrightarrow> \<not> isWhiteSpace (hd s) \<Longrightarrow> \<not> isWhiteSpace (last s) \<Longrightarrow>
   [] \<notin> set (splitWhiteSpace s)"
proof (induction s rule: splitWhiteSpace.induct)
  case (1 s)
  show ?case
  proof (cases "dropWhile (\<lambda>c. \<not> isWhiteSpace c) s")
    case Nil
    then have "splitWhiteSpace s = [s]" by (rule splitWhiteSpace_whole)
    with "1.prems" show ?thesis by simp
  next
    case (Cons x rest)
    let ?s' = "dropWhile isWhiteSpace rest"
    have split: "splitWhiteSpace s = takeWhile (\<lambda>c. \<not> isWhiteSpace c) s # splitWhiteSpace ?s'"
      using Cons by (rule splitWhiteSpace_cut)
    have first: "takeWhile (\<lambda>c. \<not> isWhiteSpace c) s \<noteq> []"
      using "1.prems" by (cases s) auto
    have xw: "isWhiteSpace x"
      using hd_dropWhile [of "\<lambda>c. \<not> isWhiteSpace c" s] Cons by simp
    have s_eq: "s = takeWhile (\<lambda>c. \<not> isWhiteSpace c) s @ x # rest"
      using takeWhile_dropWhile_id [of "\<lambda>c. \<not> isWhiteSpace c" s] Cons by simp
    have rest_ne: "rest \<noteq> []"
    proof
      assume "rest = []"
      with s_eq have "last s = x" by (metis last_snoc)
      with xw "1.prems" show False by simp
    qed
    then have last_rest: "last rest = last s"
      using s_eq by (metis last_ConsR last_appendR list.distinct(1))
    have s'_ne: "?s' \<noteq> []"
    proof
      assume "?s' = []"
      then have "\<forall>c \<in> set rest. isWhiteSpace c" by (simp add: dropWhile_eq_Nil_conv)
      with rest_ne have "isWhiteSpace (last rest)" by simp
      with last_rest "1.prems" show False by simp
    qed
    then have "\<not> isWhiteSpace (hd ?s')" by (rule hd_dropWhile)
    moreover have "\<not> isWhiteSpace (last ?s')"
      using s'_ne last_rest "1.prems" by (simp add: last_dropWhile_keep)
    ultimately have "[] \<notin> set (splitWhiteSpace ?s')"
      using "1.IH" [OF Cons s'_ne] by simp
    with split first show ?thesis by simp
  qed
qed

lemma joinWith_Cons: "ps \<noteq> [] \<Longrightarrow> joinWith sep (p # ps) = p @ sep @ joinWith sep ps"
  by (cases ps) simp_all

lemma collapseWhiteSpace_plain_prefix:
  "\<forall>c \<in> set p. \<not> isWhiteSpace c \<Longrightarrow> collapseWhiteSpace (p @ r) = p @ collapseWhiteSpace r"
  by (induction p) simp_all

lemma joinWith_splitWhiteSpace:
  "joinWith [0x20] (splitWhiteSpace s) = collapseWhiteSpace s"
proof (induction s rule: splitWhiteSpace.induct)
  case (1 s)
  show ?case
  proof (cases "dropWhile (\<lambda>c. \<not> isWhiteSpace c) s")
    case Nil
    then have all: "\<forall>c \<in> set s. \<not> isWhiteSpace c" by (simp add: dropWhile_eq_Nil_conv)
    from Nil have "splitWhiteSpace s = [s]" by (rule splitWhiteSpace_whole)
    moreover from all have "collapseWhiteSpace (s @ []) = s @ collapseWhiteSpace []"
      by (rule collapseWhiteSpace_plain_prefix)
    ultimately show ?thesis by simp
  next
    case (Cons x rest)
    let ?p = "takeWhile (\<lambda>c. \<not> isWhiteSpace c) s"
    let ?s' = "dropWhile isWhiteSpace rest"
    have split: "splitWhiteSpace s = ?p # splitWhiteSpace ?s'"
      using Cons by (rule splitWhiteSpace_cut)
    have xw: "isWhiteSpace x"
      using hd_dropWhile [of "\<lambda>c. \<not> isWhiteSpace c" s] Cons by simp
    have s_eq: "s = ?p @ x # rest"
      using takeWhile_dropWhile_id [of "\<lambda>c. \<not> isWhiteSpace c" s] Cons by simp
    have "\<forall>c \<in> set ?p. \<not> isWhiteSpace c" by (auto dest: set_takeWhileD)
    then have "collapseWhiteSpace (?p @ x # rest) = ?p @ collapseWhiteSpace (x # rest)"
      by (rule collapseWhiteSpace_plain_prefix)
    with s_eq have "collapseWhiteSpace s = ?p @ collapseWhiteSpace (x # rest)" by simp
    also have "\<dots> = ?p @ [0x20] @ collapseWhiteSpace ?s'" using xw by simp
    also have "\<dots> = ?p @ [0x20] @ joinWith [0x20] (splitWhiteSpace ?s')"
      using "1.IH" [OF Cons] by simp
    also have "\<dots> = joinWith [0x20] (?p # splitWhiteSpace ?s')"
      by (simp add: joinWith_Cons splitWhiteSpace_not_Nil)
    finally show ?thesis using split by simp
  qed
qed

lemma set_collapseWhiteSpace: "set (collapseWhiteSpace s) \<subseteq> insert 0x20 (set s)"
proof (induction s rule: collapseWhiteSpace.induct)
  case 1
  show ?case by simp
next
  case (2 c cs)
  show ?case
  proof (cases "isWhiteSpace c")
    case True
    with 2 have "set (collapseWhiteSpace (dropWhile isWhiteSpace cs))
        \<subseteq> insert 0x20 (set (dropWhile isWhiteSpace cs))" by simp
    moreover have "set (dropWhile isWhiteSpace cs) \<subseteq> set cs"
      by (auto dest: set_dropWhileD)
    ultimately show ?thesis using True by auto
  next
    case False
    with 2 show ?thesis by auto
  qed
qed

lemma str_space: "str '' '' = [0x20]"
  by (simp add: str_def chr_def)

section \<open>The matcher decides the language\<close>

lemma nullable_lang: "nullable r \<longleftrightarrow> [] \<in> lang r"
  by (induction r) (auto intro: repeated.none)

lemma repeated_Cons:
  "c # w \<in> repeated L \<longleftrightarrow> (\<exists>u v. w = u @ v \<and> c # u \<in> L \<and> v \<in> repeated L)"
proof
  assume "c # w \<in> repeated L"
  then show "\<exists>u v. w = u @ v \<and> c # u \<in> L \<and> v \<in> repeated L"
  proof (induction "c # w" rule: repeated.induct)
    case (more u v)
    show ?case
    proof (cases u)
      case Nil
      with more show ?thesis by simp
    next
      case (Cons a u')
      with more.hyps(1,2,4) show ?thesis by auto
    qed
  qed
next
  assume "\<exists>u v. w = u @ v \<and> c # u \<in> L \<and> v \<in> repeated L"
  then obtain u v where "w = u @ v" "c # u \<in> L" "v \<in> repeated L" by blast
  then show "c # w \<in> repeated L"
    using repeated.more [of "c # u" L v] by simp
qed

lemma lang_ThenI: "u \<in> lang r \<Longrightarrow> v \<in> lang s \<Longrightarrow> u @ v \<in> lang (Then r s)"
  by auto

lemma lang_after: "w \<in> lang (after c r) \<longleftrightarrow> c # w \<in> lang r"
proof (induction r arbitrary: w)
  case (Then r s)
  show ?case
  proof
    assume "w \<in> lang (after c (Then r s))"
    then consider (left) "w \<in> lang (Then (after c r) s)"
      | (right) "nullable r" "w \<in> lang (after c s)"
      by (auto split: if_splits)
    then show "c # w \<in> lang (Then r s)"
    proof cases
      case left
      then obtain u v where "w = u @ v" "u \<in> lang (after c r)" "v \<in> lang s" by auto
      with Then.IH(1) have "c # u \<in> lang r" by simp
      then have "(c # u) @ v \<in> lang (Then r s)" using \<open>v \<in> lang s\<close> by (rule lang_ThenI)
      with \<open>w = u @ v\<close> show ?thesis by simp
    next
      case right
      then have "[] \<in> lang r" "c # w \<in> lang s" using Then.IH(2) by (simp_all add: nullable_lang)
      then have "[] @ (c # w) \<in> lang (Then r s)" by (rule lang_ThenI)
      then show ?thesis by simp
    qed
  next
    assume "c # w \<in> lang (Then r s)"
    then obtain u v where uv: "c # w = u @ v" "u \<in> lang r" "v \<in> lang s" by auto
    show "w \<in> lang (after c (Then r s))"
    proof (cases u)
      case Nil
      with uv have "nullable r" "w \<in> lang (after c s)" using Then.IH(2) by (simp_all add: nullable_lang)
      then show ?thesis by simp
    next
      case (Cons a u')
      with uv have "w = u' @ v" "u' \<in> lang (after c r)" using Then.IH(1) by simp_all
      with uv(3) have "w \<in> lang (Then (after c r) s)" by auto
      then show ?thesis by simp
    qed
  qed
next
  case (Many r)
  have "w \<in> lang (after c (Many r)) \<longleftrightarrow>
        (\<exists>u v. w = u @ v \<and> u \<in> lang (after c r) \<and> v \<in> repeated (lang r))"
    by auto
  also have "\<dots> \<longleftrightarrow> (\<exists>u v. w = u @ v \<and> c # u \<in> lang r \<and> v \<in> repeated (lang r))"
    using Many.IH by simp
  also have "\<dots> \<longleftrightarrow> c # w \<in> repeated (lang r)"
    by (simp add: repeated_Cons)
  finally show ?case by simp
qed auto

lemma matches_lang: "matches r s \<longleftrightarrow> s \<in> lang r"
  by (induction s arbitrary: r) (simp_all add: nullable_lang lang_after)

lemma regexSearch_lang:
  "regexSearch r s \<longleftrightarrow> (\<exists>pre m post. s = pre @ m @ post \<and> m \<in> lang r)"
proof
  assume "regexSearch r s"
  then obtain i n where "matches r (take n (drop i s))"
    unfolding regexSearch_def list_ex_iff by blast
  then have "take n (drop i s) \<in> lang r" by (simp add: matches_lang)
  moreover have "s = take i s @ take n (drop i s) @ drop n (drop i s)"
    by (simp only: append_take_drop_id)
  ultimately show "\<exists>pre m post. s = pre @ m @ post \<and> m \<in> lang r" by blast
next
  assume "\<exists>pre m post. s = pre @ m @ post \<and> m \<in> lang r"
  then obtain pre m post where s: "s = pre @ m @ post" and m: "m \<in> lang r" by blast
  have "take (length m) (drop (length pre) s) = m" using s by simp
  with m have "matches r (take (length m) (drop (length pre) s))" by (simp add: matches_lang)
  moreover have "length pre \<in> set [0..<Suc (length s)]" using s by simp
  moreover have "length m \<in> set [0..<Suc (length s - length pre)]" using s by simp
  ultimately show "regexSearch r s" unfolding regexSearch_def list_ex_iff by blast
qed

lemma regexSearch_Class: "regexSearch (Class items) s \<longleftrightarrow> (\<exists>c \<in> set s. inClass items c)"
proof
  assume "regexSearch (Class items) s"
  then obtain pre m post where "s = pre @ m @ post" "m \<in> lang (Class items)"
    by (auto simp: regexSearch_lang)
  then show "\<exists>c \<in> set s. inClass items c" by auto
next
  assume "\<exists>c \<in> set s. inClass items c"
  then obtain c where c: "c \<in> set s" "inClass items c" by blast
  then obtain pre post where "s = pre @ c # post" by (auto simp: in_set_conv_decomp)
  then have "s = pre @ [c] @ post" by simp
  moreover have "[c] \<in> lang (Class items)" using c by simp
  ultimately show "regexSearch (Class items) s" unfolding regexSearch_lang by blast
qed

section \<open>Dangerous characters\<close>

lemma DangerousCharacterSet_class:
  "DANGEROUS_PATTERNS = Class items \<Longrightarrow> inClass items c \<longleftrightarrow> c \<in> DangerousCharacterSet"
  by (auto simp: DANGEROUS_PATTERNS_def DangerousCharacterSet_def inClass_def str_def chr_def)

lemma containsDangerousChars_iff:
  "containsDangerousChars s \<longleftrightarrow> (\<exists>c \<in> set s. c \<in> DangerousCharacterSet)"
proof -
  obtain items where items: "DANGEROUS_PATTERNS = Class items"
    by (simp add: DANGEROUS_PATTERNS_def)
  show ?thesis
    by (cases s)
      (simp_all add: containsDangerousChars_def items regexSearch_Class
        DangerousCharacterSet_class [OF items])
qed

lemma dangerous_cases:
  "c \<in> DangerousCharacterSet \<longleftrightarrow> c = backslash \<or> c \<in> set dangerousChars"
  by (auto simp: DangerousCharacterSet_def dangerousChars_def backslash_def str_def chr_def)

lemma dangerous_not_white: "c \<in> DangerousCharacterSet \<Longrightarrow> \<not> isWhiteSpace c"
  by (auto simp: DangerousCharacterSet_def isWhiteSpace_def str_def chr_def)

lemma space_not_dangerous: "0x20 \<notin> DangerousCharacterSet"
  by (simp add: DangerousCharacterSet_def str_def chr_def)

lemma backslash_not_listed: "backslash \<notin> set dangerousChars"
  by (simp add: backslash_def dangerousChars_def chr_def)

section \<open>The escaping loop\<close>

lemma escapeWhile_escapeFrom:
  "escapeWhile arg i result = result @ escapeFrom (drop i arg)"
proof (induction arg i result rule: escapeWhile.induct)
  case (1 arg i result)
  show ?case
  proof (cases "i < length arg")
    case False
    then show ?thesis by (subst escapeWhile.simps) simp
  next
    case inside: True
    then have here: "drop i arg = arg ! i # drop (Suc i) arg"
      by (simp add: Cons_nth_drop_Suc)
    show ?thesis
    proof (cases "Suc i < length arg")
      case False
      then have rest: "drop (Suc i) arg = []" by simp
      from inside False rest here 1 show ?thesis
        by (subst escapeWhile.simps) (simp add: backslash_not_listed)
    next
      case True
      then have nxt: "drop (Suc i) arg = arg ! Suc i # drop (Suc (Suc i)) arg"
        by (simp add: Cons_nth_drop_Suc)
      from inside True nxt here 1 show ?thesis
        by (subst escapeWhile.simps) (simp add: backslash_not_listed)
    qed
  qed
qed

lemma escapeArgument_escapeFrom: "escapeArgument arg = escapeFrom arg"
  by (cases arg) (simp_all add: escapeArgument_def escapeWhile_escapeFrom)

lemma escapeFrom_idem: "escapeFrom (escapeFrom s) = escapeFrom s"
proof (induction s rule: escapeFrom.induct)
  case 1
  show ?case by simp
next
  case (2 c rest)
  show ?case
  proof (cases "c = backslash")
    case False
    with 2 show ?thesis by (simp add: backslash_not_listed)
  next
    case cb: True
    show ?thesis
    proof (cases rest)
      case Nil
      with cb show ?thesis by (simp add: backslash_not_listed)
    next
      case (Cons n rest')
      show ?thesis
      proof (cases "n \<in> set dangerousChars")
        case True
        with cb Cons 2 show ?thesis by simp
      next
        case nd: False
        show ?thesis
        proof (cases "n = backslash")
          case True
          with cb Cons nd 2 show ?thesis by (simp add: backslash_not_listed)
        next
          case False
          with cb Cons nd 2 show ?thesis by (simp add: backslash_not_listed)
        qed
      qed
    qed
  qed
qed

lemma strip_escapeFrom_plain:
  "c \<in> set (stripEscapes (escapeFrom s)) \<Longrightarrow> c \<noteq> backslash \<and> c \<notin> set dangerousChars"
proof (induction s rule: escapeFrom.induct)
  case 1
  then show ?case by simp
next
  case (2 d rest)
  show ?case
  proof (cases "d = backslash")
    case db: True
    show ?thesis
    proof (cases rest)
      case Nil
      with db 2 show ?thesis by (simp add: backslash_not_listed)
    next
      case (Cons n rest')
      with db 2 show ?thesis by (simp add: backslash_not_listed split: if_splits)
    qed
  next
    case nb: False
    show ?thesis
    proof (cases "d \<in> set dangerousChars")
      case True
      with nb 2 show ?thesis by simp
    next
      case False
      with nb 2 show ?thesis by (cases "escapeFrom rest") auto
    qed
  qed
qed

lemma escapeFrom_safe: "\<forall>c \<in> set s. c \<notin> DangerousCharacterSet \<Longrightarrow> escapeFrom s = s"
  by (induction s) (simp_all add: dangerous_cases)

text \<open>
  Claim C2: \<^verbatim>\<open>escapeArgument\<close> is idempotent. For every string \<open>s\<close>, partially
  escaped or with any run of backslashes, escaping the escaped string gives the escaped
  string again.
\<close>

theorem escapeArgument_idempotent:
  "escapeArgument (escapeArgument s) = escapeArgument s"
  by (simp only: escapeArgument_escapeFrom escapeFrom_idem)

text \<open>
  Claim C3: for every string \<open>s\<close>, once the escape sequences of
  \<^verbatim>\<open>escapeArgument(s)\<close> are stripped (each backslash with the character it escapes),
  \<^verbatim>\<open>containsDangerousChars\<close> finds nothing: no dangerous character is left unescaped.
\<close>

theorem escapeArgument_leaves_nothing_unescaped:
  "\<not> containsDangerousChars (stripEscapes (escapeArgument s))"
  using strip_escapeFrom_plain [of _ s]
  by (auto simp: containsDangerousChars_iff dangerous_cases escapeArgument_escapeFrom)

theorem escapeArgument_leaves_nothing_unescaped_witness:
  "escapeArgument [chr CHR ''a'', chr CHR '';'', 0x5C, 0x5C, 0x5C, chr CHR ''b'', 0x5C, chr CHR ''|'']
     = [chr CHR ''a'', 0x5C, chr CHR '';'', 0x5C, 0x5C, 0x5C, 0x5C, chr CHR ''b'', 0x5C, chr CHR ''|'']
   \<and> \<not> containsDangerousChars (stripEscapes (escapeArgument
        [chr CHR ''a'', chr CHR '';'', 0x5C, 0x5C, 0x5C, chr CHR ''b'', 0x5C, chr CHR ''|'']))"
proof -
  have "escapeArgument [chr CHR ''a'', chr CHR '';'', 0x5C, 0x5C, 0x5C, chr CHR ''b'', 0x5C, chr CHR ''|'']
     = [chr CHR ''a'', 0x5C, chr CHR '';'', 0x5C, 0x5C, 0x5C, 0x5C, chr CHR ''b'', 0x5C, chr CHR ''|'']"
    by (simp add: escapeArgument_escapeFrom backslash_def dangerousChars_def chr_def)
  then show ?thesis
    using escapeArgument_leaves_nothing_unescaped
      [of "[chr CHR ''a'', chr CHR '';'', 0x5C, 0x5C, 0x5C, chr CHR ''b'', 0x5C, chr CHR ''|'']"]
    by simp
qed

section \<open>validateCommand\<close>

lemma validateCommand_unfold:
  "validateCommand command =
     (if trim command = [] then rejectCommand CommandEmpty
      else if firstToken command \<notin> set ALLOWED_COMMANDS
           then rejectCommand (CommandNotAllowed (firstToken command))
      else if containsDangerousChars (trim command) then rejectCommand CommandUnsafe
      else acceptCommand (joinWith (str '' '')
             (firstToken command # map escapeArgument (tl (splitWhiteSpace (trim command))))))"
proof (cases "command = []")
  case True
  then show ?thesis by (simp add: validateCommand_def trim_Nil)
next
  case False
  obtain base args where parts: "splitWhiteSpace (trim command) = base # args"
    using splitWhiteSpace_not_Nil [of "trim command"]
    by (cases "splitWhiteSpace (trim command)") auto
  with False show ?thesis
    by (simp add: validateCommand_def firstToken_def Let_def)
qed

lemma dangerous_survives_trim:
  assumes "\<exists>c \<in> set command. c \<in> DangerousCharacterSet"
  shows "containsDangerousChars (trim command)"
proof -
  from assms obtain c where c: "c \<in> set command" "c \<in> DangerousCharacterSet" by blast
  then have "c \<in> set (trim command)" by (simp add: set_trim_keeps dangerous_not_white)
  with c show ?thesis by (auto simp: containsDangerousChars_iff)
qed

lemma token_not_dangerous:
  assumes "\<not> containsDangerousChars s" and "t \<in> set (splitWhiteSpace s)"
  shows "\<forall>c \<in> set t. c \<notin> DangerousCharacterSet"
  using assms splitWhiteSpace_token [of t s] by (auto simp: containsDangerousChars_iff)

lemma map_escapeArgument_safe:
  assumes "\<not> containsDangerousChars s" and "set ts \<subseteq> set (splitWhiteSpace s)"
  shows "map escapeArgument ts = ts"
proof -
  have "escapeArgument t = t" if "t \<in> set ts" for t
    using that assms token_not_dangerous [of s t]
    by (simp add: escapeArgument_escapeFrom escapeFrom_safe subset_iff)
  then show ?thesis by (simp add: map_idI)
qed

lemma collapse_not_dangerous:
  assumes "\<not> containsDangerousChars s"
  shows "\<not> containsDangerousChars (collapseWhiteSpace s)"
  using assms set_collapseWhiteSpace [of s] space_not_dangerous
  by (auto simp: containsDangerousChars_iff)

text \<open>
  Claim C1: every input whose first white-space-separated token is not in the allow-list,
  or which contains a character of the dangerous set, is rejected by
  \<^verbatim>\<open>validateCommand\<close>: \<open>valid\<close> is false and there is no \<open>sanitizedCommand\<close>.
\<close>

theorem validateCommand_rejects_unlisted_or_dangerous:
  assumes "firstToken command \<notin> set ALLOWED_COMMANDS
           \<or> (\<exists>c \<in> set command. c \<in> DangerousCharacterSet)"
  shows "CommandValidationResult.valid (validateCommand command) = False
         \<and> sanitizedCommand (validateCommand command) = None"
proof -
  from assms have "firstToken command \<notin> set ALLOWED_COMMANDS
      \<or> containsDangerousChars (trim command)"
    using dangerous_survives_trim by blast
  then show ?thesis
    by (auto simp: validateCommand_unfold rejectCommand_def)
qed

theorem validateCommand_rejects_unlisted_or_dangerous_witness:
  "firstToken (str ''rm -rf /'') \<notin> set ALLOWED_COMMANDS
   \<and> CommandValidationResult.valid (validateCommand (str ''rm -rf /'')) = False
   \<and> sanitizedCommand (validateCommand (str ''rm -rf /'')) = None
   \<and> (\<exists>c \<in> set (str ''npm install; rm -rf /''). c \<in> DangerousCharacterSet)
   \<and> firstToken (str ''npm install; rm -rf /'') \<in> set ALLOWED_COMMANDS
   \<and> CommandValidationResult.valid (validateCommand (str ''npm install; rm -rf /'')) = False
   \<and> sanitizedCommand (validateCommand (str ''npm install; rm -rf /'')) = None"
proof -
  have a: "firstToken (str ''rm -rf /'') \<notin> set ALLOWED_COMMANDS"
    by code_simp
  have b: "\<exists>c \<in> set (str ''npm install; rm -rf /''). c \<in> DangerousCharacterSet"
    by (simp add: DangerousCharacterSet_def str_def chr_def)
  have c: "firstToken (str ''npm install; rm -rf /'') \<in> set ALLOWED_COMMANDS"
    by code_simp
  from a b c
    validateCommand_rejects_unlisted_or_dangerous [of "str ''rm -rf /''", OF disjI1, OF a]
    validateCommand_rejects_unlisted_or_dangerous [of "str ''npm install; rm -rf /''", OF disjI2, OF b]
  show ?thesis by blast
qed

text \<open>
  Claim C7: the gates of \<^verbatim>\<open>validateCommand\<close> apply in order and the first failure
  wins. An empty or all-white-space input gets the empty-command reason; otherwise a
  first token that is not, exactly and case-sensitively, in the allow-list gets the
  reason that names that token, whether or not dangerous characters are present; only a
  command with an allowed first token is scanned, as a whole, for dangerous characters.
\<close>

theorem validateCommand_gate_order:
  "((\<forall>c \<in> set command. isWhiteSpace c) \<longrightarrow>
      validateCommand command = rejectCommand CommandEmpty)
   \<and> ((\<exists>c \<in> set command. \<not> isWhiteSpace c)
        \<and> firstToken command \<notin> set ALLOWED_COMMANDS \<longrightarrow>
        validateCommand command = rejectCommand (CommandNotAllowed (firstToken command)))
   \<and> ((\<exists>c \<in> set command. \<not> isWhiteSpace c)
        \<and> firstToken command \<in> set ALLOWED_COMMANDS
        \<and> containsDangerousChars (trim command) \<longrightarrow>
        validateCommand command = rejectCommand CommandUnsafe)"
  using trim_eq_Nil_iff [of command] by (auto simp: validateCommand_unfold)

theorem validateCommand_gate_order_witness:
  "list_all isWhiteSpace (str ''   '')
   \<and> validateCommand (str ''   '') = rejectCommand CommandEmpty
   \<and> validateCommand [] = rejectCommand CommandEmpty
   \<and> (\<exists>c \<in> set (str ''rm -rf /; ls''). \<not> isWhiteSpace c)
   \<and> firstToken (str ''rm -rf /; ls'') \<notin> set ALLOWED_COMMANDS
   \<and> containsDangerousChars (trim (str ''rm -rf /; ls''))
   \<and> validateCommand (str ''rm -rf /; ls'') = rejectCommand (CommandNotAllowed (str ''rm''))
   \<and> validateCommand (str ''NPM install'') = rejectCommand (CommandNotAllowed (str ''NPM''))
   \<and> (\<exists>c \<in> set (str ''npm install; ls''). \<not> isWhiteSpace c)
   \<and> firstToken (str ''npm install; ls'') \<in> set ALLOWED_COMMANDS
   \<and> containsDangerousChars (trim (str ''npm install; ls''))
   \<and> validateCommand (str ''npm install; ls'') = rejectCommand CommandUnsafe"
proof -
  have e: "\<forall>c \<in> set (str ''   ''). isWhiteSpace c"
    by (simp add: str_def chr_def isWhiteSpace_def)
  have r1: "\<exists>c \<in> set (str ''rm -rf /; ls''). \<not> isWhiteSpace c"
    by (simp add: str_def chr_def isWhiteSpace_def)
  have r2: "firstToken (str ''rm -rf /; ls'') = str ''rm''" by code_simp
  have r3: "str ''rm'' \<notin> set ALLOWED_COMMANDS" by code_simp
  have r4: "containsDangerousChars (trim (str ''rm -rf /; ls''))"
    by (rule dangerous_survives_trim) (simp add: DangerousCharacterSet_def str_def chr_def)
  have u1: "\<exists>c \<in> set (str ''NPM install''). \<not> isWhiteSpace c"
    by (simp add: str_def chr_def isWhiteSpace_def)
  have u2: "firstToken (str ''NPM install'') = str ''NPM''" by code_simp
  have u3: "str ''NPM'' \<notin> set ALLOWED_COMMANDS" by code_simp
  have n1: "\<exists>c \<in> set (str ''npm install; ls''). \<not> isWhiteSpace c"
    by (simp add: str_def chr_def isWhiteSpace_def)
  have n2: "firstToken (str ''npm install; ls'') \<in> set ALLOWED_COMMANDS" by code_simp
  have n3: "containsDangerousChars (trim (str ''npm install; ls''))"
    by (rule dangerous_survives_trim) (simp add: DangerousCharacterSet_def str_def chr_def)
  have w0: "validateCommand [] = rejectCommand CommandEmpty"
    using validateCommand_gate_order [of "[]"] by simp
  have w1: "validateCommand (str ''   '') = rejectCommand CommandEmpty"
    using validateCommand_gate_order [of "str ''   ''"] e by blast
  have w2: "validateCommand (str ''rm -rf /; ls'') = rejectCommand (CommandNotAllowed (str ''rm''))"
    using validateCommand_gate_order [of "str ''rm -rf /; ls''"] r1 r2 r3 by simp
  have w3: "validateCommand (str ''NPM install'') = rejectCommand (CommandNotAllowed (str ''NPM''))"
    using validateCommand_gate_order [of "str ''NPM install''"] u1 u2 u3 by simp
  have w4: "validateCommand (str ''npm install; ls'') = rejectCommand CommandUnsafe"
    using validateCommand_gate_order [of "str ''npm install; ls''"] n1 n2 n3 by blast
  from e r1 r2 r3 r4 n1 n2 n3 w0 w1 w2 w3 w4 show ?thesis by (simp add: list_all_iff)
qed

text \<open>
  Claim C8: for every input that passes both gates, \<^verbatim>\<open>validateCommand\<close> accepts and
  the sanitized command is the base command followed by each argument token passed
  through \<^verbatim>\<open>escapeArgument\<close>, joined with single spaces. The tokens are not empty and
  hold no white space, and joined by single spaces they are the trimmed command with every
  run of white space collapsed to one space.
\<close>

theorem validateCommand_sanitized:
  assumes "trim command \<noteq> []"
    and "splitWhiteSpace (trim command) = base # args"
    and "base \<in> set ALLOWED_COMMANDS"
    and "\<not> containsDangerousChars (trim command)"
  shows "validateCommand command
           = acceptCommand (joinWith (str '' '') (base # map escapeArgument args))
         \<and> (\<forall>t \<in> set (base # args). t \<noteq> [] \<and> (\<forall>c \<in> set t. \<not> isWhiteSpace c))
         \<and> joinWith (str '' '') (base # args) = collapseWhiteSpace (trim command)"
proof -
  from assms have "validateCommand command
      = acceptCommand (joinWith (str '' '') (base # map escapeArgument args))"
    by (simp add: validateCommand_unfold firstToken_def)
  moreover have "t \<noteq> [] \<and> (\<forall>c \<in> set t. \<not> isWhiteSpace c)" if "t \<in> set (base # args)" for t
  proof -
    from that assms(2) have t: "t \<in> set (splitWhiteSpace (trim command))" by simp
    have "[] \<notin> set (splitWhiteSpace (trim command))"
      using assms(1) by (intro splitWhiteSpace_no_empty trim_hd_not_white trim_last_not_white)
    with t have "t \<noteq> []" by auto
    with t show ?thesis using splitWhiteSpace_token [of t "trim command"] by blast
  qed
  moreover have "joinWith (str '' '') (base # args) = collapseWhiteSpace (trim command)"
    using joinWith_splitWhiteSpace [of "trim command"] assms(2) by (simp add: str_space)
  ultimately show ?thesis by blast
qed

theorem validateCommand_sanitized_witness:
  "trim (str ''  npm   install   lodash  '') \<noteq> []
   \<and> splitWhiteSpace (trim (str ''  npm   install   lodash  ''))
       = str ''npm'' # [str ''install'', str ''lodash'']
   \<and> str ''npm'' \<in> set ALLOWED_COMMANDS
   \<and> \<not> containsDangerousChars (trim (str ''  npm   install   lodash  ''))
   \<and> validateCommand (str ''  npm   install   lodash  '')
       = acceptCommand (str ''npm install lodash'')"
proof -
  have t: "trim (str ''  npm   install   lodash  '') = str ''npm   install   lodash''"
    by code_simp
  have a: "trim (str ''  npm   install   lodash  '') \<noteq> []"
    by code_simp
  have b: "splitWhiteSpace (trim (str ''  npm   install   lodash  ''))
       = str ''npm'' # [str ''install'', str ''lodash'']"
    by code_simp
  have c: "str ''npm'' \<in> set ALLOWED_COMMANDS" by code_simp
  have d: "\<not> containsDangerousChars (trim (str ''  npm   install   lodash  ''))"
    unfolding t by (simp add: containsDangerousChars_iff DangerousCharacterSet_def str_def chr_def)
  have e: "joinWith (str '' '') (str ''npm'' # map escapeArgument [str ''install'', str ''lodash''])
       = str ''npm install lodash''"
    by code_simp
  from validateCommand_sanitized [OF a b c d] a b c d e show ?thesis by simp
qed

text \<open>
  Claim C10: for every command that \<^verbatim>\<open>validateCommand\<close> accepts, no argument token
  holds a dangerous character, so \<^verbatim>\<open>escapeArgument\<close> leaves every argument as it is;
  the sanitized command is the trimmed input with every run of white space collapsed to
  one space, and \<^verbatim>\<open>containsDangerousChars\<close> is false on it.
\<close>

theorem validateCommand_accepted_unchanged:
  assumes "CommandValidationResult.valid (validateCommand command)"
  shows "(\<forall>a \<in> set (tl (splitWhiteSpace (trim command))).
            \<not> containsDangerousChars a \<and> escapeArgument a = a)
         \<and> sanitizedCommand (validateCommand command)
             = Some (collapseWhiteSpace (trim command))
         \<and> \<not> containsDangerousChars (collapseWhiteSpace (trim command))"
proof -
  let ?parts = "splitWhiteSpace (trim command)"
  from assms have safe: "\<not> containsDangerousChars (trim command)"
    and accepted: "validateCommand command = acceptCommand (joinWith (str '' '')
        (firstToken command # map escapeArgument (tl ?parts)))"
    by (auto simp: validateCommand_unfold rejectCommand_def split: if_splits)
  have parts: "?parts = firstToken command # tl ?parts"
    using splitWhiteSpace_not_Nil [of "trim command"]
    by (cases ?parts) (simp_all add: firstToken_def)
  have sub: "set (tl ?parts) \<subseteq> set ?parts" by (metis parts set_subset_Cons)
  have same: "map escapeArgument (tl ?parts) = tl ?parts"
    using safe sub by (rule map_escapeArgument_safe)
  have args: "\<not> containsDangerousChars a \<and> escapeArgument a = a" if "a \<in> set (tl ?parts)" for a
  proof -
    from that sub have "a \<in> set ?parts" by blast
    with safe have "\<forall>c \<in> set a. c \<notin> DangerousCharacterSet" by (rule token_not_dangerous)
    then show ?thesis
      by (simp add: containsDangerousChars_iff escapeArgument_escapeFrom escapeFrom_safe)
  qed
  have "joinWith (str '' '') (firstToken command # map escapeArgument (tl ?parts))
      = joinWith [0x20] ?parts"
    using parts same by (simp add: str_space)
  then have "sanitizedCommand (validateCommand command) = Some (collapseWhiteSpace (trim command))"
    using accepted by (simp add: acceptCommand_def joinWith_splitWhiteSpace)
  with args collapse_not_dangerous [OF safe] show ?thesis by blast
qed

theorem validateCommand_accepted_unchanged_witness:
  "CommandValidationResult.valid (validateCommand (str ''  pip3 install  requests  ''))
   \<and> escapeArgument (str ''install'') = str ''install''
   \<and> escapeArgument (str ''requests'') = str ''requests''
   \<and> sanitizedCommand (validateCommand (str ''  pip3 install  requests  ''))
       = Some (str ''pip3 install requests'')
   \<and> \<not> containsDangerousChars (str ''pip3 install requests'')"
proof -
  have t: "trim (str ''  pip3 install  requests  '') = str ''pip3 install  requests''"
    by code_simp
  have p: "splitWhiteSpace (str ''pip3 install  requests'')
      = [str ''pip3'', str ''install'', str ''requests'']"
    by code_simp
  have a: "str ''pip3'' \<in> set ALLOWED_COMMANDS" by code_simp
  have d: "\<not> containsDangerousChars (str ''pip3 install  requests'')"
    by (simp add: containsDangerousChars_iff DangerousCharacterSet_def str_def chr_def)
  have n: "str ''pip3 install  requests'' \<noteq> []" by (simp add: str_def)
  have v: "CommandValidationResult.valid (validateCommand (str ''  pip3 install  requests  ''))"
    using t p a d n by (simp add: validateCommand_unfold firstToken_def acceptCommand_def)
  have c: "collapseWhiteSpace (str ''pip3 install  requests'') = str ''pip3 install requests''"
    by code_simp
  from validateCommand_accepted_unchanged [OF v] v t p c show ?thesis by simp
qed

section \<open>validatePath\<close>

lemma lang_two_dots: "lang PATH_TRAVERSAL_PATTERN = {str ''..''}"
  by (auto simp: PATH_TRAVERSAL_PATTERN_def inClass_def str_def)

lemma traversal_search:
  "regexSearch PATH_TRAVERSAL_PATTERN s \<longleftrightarrow> (\<exists>pre post. s = pre @ str ''..'' @ post)"
  by (simp add: regexSearch_lang lang_two_dots)

lemma dot_not_white: "\<not> isWhiteSpace (chr CHR ''.'')"
  by (simp add: isWhiteSpace_def chr_def)

lemma traversal_survives_trim:
  assumes "\<exists>pre post. path = pre @ str ''..'' @ post"
  shows "\<exists>pre post. trim path = pre @ str ''..'' @ post"
proof -
  from assms obtain pre post where "path = pre @ chr CHR ''.'' # chr CHR ''.'' # post"
    by (auto simp: str_def)
  then obtain pre' post' where "trim path = pre' @ chr CHR ''.'' # chr CHR ''.'' # post'"
    using trim_inside [OF dot_not_white dot_not_white, of pre post] by auto
  then have "trim path = pre' @ str ''..'' @ post'" by (simp add: str_def)
  then show ?thesis by blast
qed

text \<open>
  Claim C4: \<^verbatim>\<open>validatePath\<close> rejects an empty or all-white-space input, rejects every
  string whose trimmed value (or the string itself) contains the two characters
  \<^verbatim>\<open>..\<close> anywhere, and accepts every other input, returning the trimmed value as it
  is.
\<close>

theorem validatePath_traversal:
  "((\<forall>c \<in> set path. isWhiteSpace c) \<longrightarrow> validatePath path = reject PathEmpty)
   \<and> ((\<exists>pre post. trim path = pre @ str ''..'' @ post) \<longrightarrow>
        validatePath path = reject PathTraversal)
   \<and> ((\<exists>pre post. path = pre @ str ''..'' @ post) \<longrightarrow>
        validatePath path = reject PathTraversal)
   \<and> ((\<exists>c \<in> set path. \<not> isWhiteSpace c)
        \<and> \<not> (\<exists>pre post. trim path = pre @ str ''..'' @ post) \<longrightarrow>
        validatePath path = accept (trim path))"
proof -
  have "trim path \<noteq> []" if "\<exists>pre post. trim path = pre @ str ''..'' @ post"
    using that by (auto simp: str_def)
  then show ?thesis
    using traversal_survives_trim [of path] trim_eq_Nil_iff [of path]
    by (auto simp: validatePath_def traversal_search Let_def)
qed

theorem validatePath_traversal_witness:
  "list_all isWhiteSpace (str ''   '') \<and> validatePath (str ''   '') = reject PathEmpty
   \<and> validatePath [] = reject PathEmpty
   \<and> (\<exists>pre post. str ''C:'' @ [0x5C] @ str ''Users'' @ [0x5C] @ str ''..'' @ [0x5C] @ str ''Admin''
         = pre @ str ''..'' @ post)
   \<and> validatePath (str ''C:'' @ [0x5C] @ str ''Users'' @ [0x5C] @ str ''..'' @ [0x5C] @ str ''Admin'')
       = reject PathTraversal
   \<and> trim (str ''  C:'' @ [0x5C] @ str ''Users'' @ [0x5C] @ str ''File.TXT '')
       = str ''C:'' @ [0x5C] @ str ''Users'' @ [0x5C] @ str ''File.TXT''
   \<and> validatePath (str ''  C:'' @ [0x5C] @ str ''Users'' @ [0x5C] @ str ''File.TXT '')
       = accept (str ''C:'' @ [0x5C] @ str ''Users'' @ [0x5C] @ str ''File.TXT'')"
proof -
  let ?bad = "str ''C:'' @ [0x5C] @ str ''Users'' @ [0x5C] @ str ''..'' @ [0x5C] @ str ''Admin''"
  let ?good = "str ''  C:'' @ [0x5C] @ str ''Users'' @ [0x5C] @ str ''File.TXT ''"
  have e: "\<forall>c \<in> set (str ''   ''). isWhiteSpace c"
    by (simp add: str_def chr_def isWhiteSpace_def)
  have b: "\<exists>pre post. ?bad = pre @ str ''..'' @ post"
    by (rule exI [of _ "str ''C:'' @ [0x5C] @ str ''Users'' @ [0x5C]"],
        rule exI [of _ "[0x5C] @ str ''Admin''"]) simp
  have t: "trim ?good = str ''C:'' @ [0x5C] @ str ''Users'' @ [0x5C] @ str ''File.TXT''"
    by code_simp
  have n: "\<exists>c \<in> set ?good. \<not> isWhiteSpace c"
    by (simp add: str_def chr_def isWhiteSpace_def)
  have g: "\<not> regexSearch PATH_TRAVERSAL_PATTERN (trim ?good)" unfolding t by code_simp
  have w0: "validatePath [] = reject PathEmpty"
    using validatePath_traversal [of "[]"] by simp
  have w1: "validatePath (str ''   '') = reject PathEmpty"
    using validatePath_traversal [of "str ''   ''"] e by blast
  have w2: "validatePath ?bad = reject PathTraversal"
    using validatePath_traversal [of ?bad] b by blast
  have w3: "validatePath ?good = accept (trim ?good)"
    using validatePath_traversal [of ?good] n g [unfolded traversal_search] by blast
  from e b t w0 w1 w2 w3 show ?thesis by (simp add: list_all_iff)
qed

section \<open>validatePackageName\<close>

lemma package_patterns_not_empty:
  "[] \<notin> lang NPM_PACKAGE_PATTERN" "[] \<notin> lang PIP_PACKAGE_PATTERN"
  by (simp_all add: nullable_lang [symmetric] NPM_PACKAGE_PATTERN_def PIP_PACKAGE_PATTERN_def)

text \<open>
  Claim C5: \<^verbatim>\<open>validatePackageName\<close> accepts exactly the strings whose trimmed value is
  in the language of the npm pattern or of the pip pattern, and returns the trimmed value
  as it is (no change of case); every other input is rejected, with no value.
\<close>

theorem validatePackageName_grammar:
  "(ValidationResult.valid (validatePackageName name) \<longleftrightarrow>
      trim name \<in> lang NPM_PACKAGE_PATTERN \<or> trim name \<in> lang PIP_PACKAGE_PATTERN)
   \<and> (ValidationResult.valid (validatePackageName name) \<longrightarrow>
        validatePackageName name = accept (trim name))
   \<and> (\<not> ValidationResult.valid (validatePackageName name) \<longrightarrow>
        validatePackageName name
          = reject (if trim name = [] then PackageNameEmpty else PackageNameInvalid))"
  using package_patterns_not_empty
  by (auto simp: validatePackageName_def matches_lang Let_def accept_def reject_def)

theorem validatePackageName_grammar_witness:
  "validatePackageName (str '''') = reject PackageNameEmpty
   \<and> validatePackageName (str ''   '') = reject PackageNameEmpty
   \<and> validatePackageName (str ''my package'') = reject PackageNameInvalid
   \<and> validatePackageName (str ''../etc/passwd'') = reject PackageNameInvalid
   \<and> trim (str ''  Django '') \<in> lang PIP_PACKAGE_PATTERN
   \<and> validatePackageName (str ''  Django '') = accept (str ''Django'')
   \<and> trim (str ''@types/node'') \<in> lang NPM_PACKAGE_PATTERN
   \<and> validatePackageName (str ''@types/node'') = accept (str ''@types/node'')"
proof -
  have t1: "trim (str '''') = []" by code_simp
  have t2: "trim (str ''   '') = []" by code_simp
  have t3: "trim (str ''my package'') = str ''my package''" by code_simp
  have m3: "\<not> matches NPM_PACKAGE_PATTERN (str ''my package'')"
    "\<not> matches PIP_PACKAGE_PATTERN (str ''my package'')" by code_simp+
  have t4: "trim (str ''../etc/passwd'') = str ''../etc/passwd''" by code_simp
  have m4: "\<not> matches NPM_PACKAGE_PATTERN (str ''../etc/passwd'')"
    "\<not> matches PIP_PACKAGE_PATTERN (str ''../etc/passwd'')" by code_simp+
  have t5: "trim (str ''  Django '') = str ''Django''" by code_simp
  have m5: "matches PIP_PACKAGE_PATTERN (str ''Django'')" by code_simp
  have t6: "trim (str ''@types/node'') = str ''@types/node''" by code_simp
  have m6: "matches NPM_PACKAGE_PATTERN (str ''@types/node'')" by code_simp
  have n: "str ''my package'' \<noteq> []" "str ''../etc/passwd'' \<noteq> []" by (simp_all add: str_def)
  have w1: "validatePackageName (str '''') = reject PackageNameEmpty"
    using validatePackageName_grammar [of "str ''''"] t1 package_patterns_not_empty by simp
  have w2: "validatePackageName (str ''   '') = reject PackageNameEmpty"
    using validatePackageName_grammar [of "str ''   ''"] t2 package_patterns_not_empty by simp
  have w3: "validatePackageName (str ''my package'') = reject PackageNameInvalid"
    using validatePackageName_grammar [of "str ''my package''"] t3 n m3 [unfolded matches_lang]
    by simp
  have w4: "validatePackageName (str ''../etc/passwd'') = reject PackageNameInvalid"
    using validatePackageName_grammar [of "str ''../etc/passwd''"] t4 n m4 [unfolded matches_lang]
    by simp
  have w5: "validatePackageName (str ''  Django '') = accept (str ''Django'')"
    using validatePackageName_grammar [of "str ''  Django ''"] t5 m5 [unfolded matches_lang]
    by simp
  have w6: "validatePackageName (str ''@types/node'') = accept (str ''@types/node'')"
    using validatePackageName_grammar [of "str ''@types/node''"] t6 m6 [unfolded matches_lang]
    by simp
  from w1 w2 w3 w4 w5 w6 t5 t6 m5 [unfolded matches_lang] m6 [unfolded matches_lang]
  show ?thesis by simp
qed

section \<open>validatePID\<close>

lemma isInteger_Finite: "isInteger (Finite q) \<longleftrightarrow> q \<in> \<int>"
  unfolding isInteger_def by (auto simp: Ints_def) 

text \<open>
  Claim C6: \<^verbatim>\<open>validatePID\<close> accepts exactly the finite positive integers and returns
  the input; it rejects, in this order and each with its own reason, a value that is not
  a number, NaN, an infinity, a number that is not an integer, and an integer that is not
  positive.
\<close>

theorem validatePID_order:
  "((\<forall>n. pid \<noteq> JSNumber n) \<longrightarrow> validatePID pid = reject PidNotNumber)
   \<and> validatePID (JSNumber NaN) = reject PidNaN
   \<and> validatePID (JSNumber PosInfinity) = reject PidNotFinite
   \<and> validatePID (JSNumber NegInfinity) = reject PidNotFinite
   \<and> (q \<notin> \<int> \<longrightarrow> validatePID (JSNumber (Finite q)) = reject PidNotInteger)
   \<and> (q \<in> \<int> \<and> q \<le> 0 \<longrightarrow> validatePID (JSNumber (Finite q)) = reject PidNotPositive)
   \<and> (q \<in> \<int> \<and> 0 < q \<longrightarrow> validatePID (JSNumber (Finite q)) = accept (Finite q))
   \<and> (ValidationResult.valid (validatePID pid) \<longleftrightarrow>
        (\<exists>k::int. 0 < k \<and> pid = JSNumber (Finite (of_int k))))
   \<and> distinct [PidNotNumber, PidNaN, PidNotFinite, PidNotInteger, PidNotPositive]"
proof -
  have notnum: "validatePID pid = reject PidNotNumber" if "\<forall>n. pid \<noteq> JSNumber n"
    using that by (cases pid) (simp_all add: validatePID_def)
  have fin: "validatePID (JSNumber (Finite r)) =
      (if r \<notin> \<int> then reject PidNotInteger
       else if r \<le> 0 then reject PidNotPositive else accept (Finite r))" for r
    by (simp add: validatePID_def isNaN_def isFinite_def isInteger_Finite lessEqualZero_def)
  have special: "validatePID (JSNumber NaN) = reject PidNaN"
    "validatePID (JSNumber PosInfinity) = reject PidNotFinite"
    "validatePID (JSNumber NegInfinity) = reject PidNotFinite"
    by (simp_all add: validatePID_def isNaN_def isFinite_def)
  have exact: "ValidationResult.valid (validatePID pid) \<longleftrightarrow>
      (\<exists>k::int. 0 < k \<and> pid = JSNumber (Finite (of_int k)))"
  proof (cases pid)
    case (JSNumber n)
    show ?thesis
    proof (cases n)
      case (Finite r)
      have "r \<in> \<int> \<and> 0 < r \<longleftrightarrow> (\<exists>k::int. 0 < k \<and> r = of_int k)"
        by (auto elim: Ints_cases)
      with JSNumber Finite fin [of r] show ?thesis
        by (auto simp: accept_def reject_def)
    qed (simp_all add: JSNumber special reject_def)
  qed (simp_all add: validatePID_def reject_def)
  from notnum fin [of q] special exact show ?thesis by simp
qed

theorem validatePID_order_witness:
  "validatePID (JSString (str ''123'')) = reject PidNotNumber
   \<and> validatePID (JSNumber (Finite (- 3 / 2))) = reject PidNotInteger
   \<and> validatePID (JSNumber (Finite 0)) = reject PidNotPositive
   \<and> validatePID (JSNumber (Finite (- 1))) = reject PidNotPositive
   \<and> validatePID (JSNumber (Finite 12345)) = accept (Finite 12345)"
proof -
  have a: "\<forall>n. JSString (str ''123'') \<noteq> JSNumber n" by simp
  have b: "(- 3 / 2 :: rat) \<notin> \<int>"
  proof
    assume "(- 3 / 2 :: rat) \<in> \<int>"
    then obtain k :: int where "(- 3 / 2 :: rat) = of_int k" by (auto elim: Ints_cases)
    then have "(of_int (2 * k) :: rat) = of_int (- 3)" by simp
    then have "2 * k = - 3" by (simp only: of_int_eq_iff)
    then show False by presburger
  qed
  have c: "(0::rat) \<in> \<int> \<and> (0::rat) \<le> 0" "(- 1::rat) \<in> \<int> \<and> (- 1::rat) \<le> 0"
    "(12345::rat) \<in> \<int> \<and> (0::rat) < 12345" by simp_all
  from a b c
    validatePID_order [of "JSString (str ''123'')" "- 3 / 2"]
    validatePID_order [of JSNull 0]
    validatePID_order [of JSNull "- 1"]
    validatePID_order [of JSNull 12345]
  show ?thesis by simp
qed

section \<open>The script sources of the CSP header\<close>











end
